theory Spec2Isabelle
  imports Main
begin

section \<open>The JavaScript values the hooks compute with\<close>

text \<open>
  A JavaScript string is modelled as a \<^typ>\<open>string\<close>, read as its sequence of code units
  below 256. An optional field (\<open>source?: string\<close>) is a \<^typ>\<open>string option\<close>, with
  \<open>None\<close> for \<open>undefined\<close> and for the \<open>null\<close> of \<open>searchParams.get\<close>.
\<close>

definition truthy :: "string option \<Rightarrow> bool" where
  \<comment> \<open>the test \<open>if (s)\<close> and the left operand of \<open>s && ...\<close> on an optional string\<close>
  "truthy s = (case s of None \<Rightarrow> False | Some t \<Rightarrow> t \<noteq> [])"

definition is_white_space :: "char \<Rightarrow> bool" where
  \<comment> \<open>TAB, LF, VT, FF, CR, SPACE and NBSP: the white space and line terminators below 256\<close>
  "is_white_space c =
     (c \<in> set [CHR 0x09, CHR 0x0A, CHR 0x0B, CHR 0x0C, CHR 0x0D, CHR 0x20, CHR 0xA0])"

definition String_trim :: "string \<Rightarrow> string" where
  \<comment> \<open>\<open>String.prototype.trim\<close>\<close>
  "String_trim s = rev (dropWhile is_white_space (rev (dropWhile is_white_space s)))"

fun String_split :: "char \<Rightarrow> string \<Rightarrow> string list" where
  \<comment> \<open>\<open>s.split(c)\<close> for a one-character separator: \<open>''''.split('','')\<close> is \<open>['''']\<close>\<close>
  "String_split c [] = [[]]"
| "String_split c (x # xs) =
     (if x = c then [] # String_split c xs
      else (x # hd (String_split c xs)) # tl (String_split c xs))"

fun Array_join :: "char \<Rightarrow> string list \<Rightarrow> string" where
  \<comment> \<open>\<open>arr.join(c)\<close> on an array of strings\<close>
  "Array_join c [] = []"
| "Array_join c [x] = x"
| "Array_join c (x # y # ys) = x @ c # Array_join c (y # ys)"

text \<open>
  A \<open>Set<string>\<close> is the list of its elements in insertion order, which is the order
  \<open>Array.from\<close> and iteration give; \<open>add\<close> appends a new element and leaves the set
  alone when the element is there already.
\<close>

definition Set_has :: "'a list \<Rightarrow> 'a \<Rightarrow> bool" where
  "Set_has s x = (x \<in> set s)"

definition Set_add :: "'a list \<Rightarrow> 'a \<Rightarrow> 'a list" where
  "Set_add s x = (if Set_has s x then s else s @ [x])"

definition Set_delete :: "'a list \<Rightarrow> 'a \<Rightarrow> 'a list" where
  "Set_delete s x = filter (\<lambda>y. y \<noteq> x) s"

definition Set_of :: "'a list \<Rightarrow> 'a list" where
  \<comment> \<open>\<open>new Set(iterable)\<close>: the elements are added one by one\<close>
  "Set_of xs = foldl Set_add [] xs"

definition Set_size :: "'a list \<Rightarrow> nat" where
  "Set_size s = length s"

text \<open>
  A \<open>Map<string, number>\<close> is the list of its entries in insertion order; \<open>set\<close> on a
  key that is present replaces the value in place.
\<close>

definition Map_get :: "('k \<times> 'v) list \<Rightarrow> 'k \<Rightarrow> 'v option" where
  "Map_get m k = map_of m k"

fun Map_set :: "('k \<times> 'v) list \<Rightarrow> 'k \<Rightarrow> 'v \<Rightarrow> ('k \<times> 'v) list" where
  "Map_set [] k v = [(k, v)]"
| "Map_set ((k', v') # m) k v =
     (if k' = k then (k, v) # m else (k', v') # Map_set m k v)"

text \<open>
  \<open>Array.prototype.sort\<close> with a comparator is stable: an element goes in front of the
  first element it does not compare greater than, and elements are placed from the
  right, so equal elements keep the order of the input.
\<close>

fun Array_sort_insert :: "('a \<Rightarrow> 'a \<Rightarrow> int) \<Rightarrow> 'a \<Rightarrow> 'a list \<Rightarrow> 'a list" where
  "Array_sort_insert cmp x [] = [x]"
| "Array_sort_insert cmp x (y # ys) =
     (if cmp x y \<le> 0 then x # y # ys else y # Array_sort_insert cmp x ys)"

definition Array_sort :: "('a \<Rightarrow> 'a \<Rightarrow> int) \<Rightarrow> 'a list \<Rightarrow> 'a list" where
  "Array_sort cmp xs = foldr (Array_sort_insert cmp) xs []"

section \<open>The items and badges\<close>

text \<open>
  The hooks are generic in the item type \<open>T extends { source?: string; sourceName?: string }\<close>
  and \<open>T extends { type_name?: string }\<close>; the record scheme \<open>'a video_scheme\<close> is any
  item with these fields.
\<close>

record video =
  source :: "string option"
  sourceName :: "string option"
  type_name :: "string option"

text \<open>
  \<open>SourceBadge\<close> and \<open>TypeBadge\<close> are declared in \<open>lib/types\<close>; the records have
  the fields the hooks read, and \<open>'a SourceBadge_scheme\<close> is a badge with any further
  fields.
\<close>

record SourceBadge =
  id_badge :: string   \<comment> \<open>the field \<open>id\<close>\<close>

record TypeBadge =
  type :: string
  count :: nat

section \<open>The URL parameter of a selection\<close>

definition parseParam :: "string option \<Rightarrow> string list" where
  \<comment> \<open>\<open>new Set(param ? param.split('','').filter(Boolean) : [])\<close>\<close>
  "parseParam param =
     Set_of (if truthy param then filter (\<lambda>seg. seg \<noteq> []) (String_split CHR '','' (the param))
             else [])"

definition paramOf :: "string list \<Rightarrow> string option" where
  \<comment> \<open>the value the sync effect gives the parameter: \<open>Array.from(selected).join('','')\<close>,
      set when it is not empty, and the parameter deleted (\<open>None\<close>) when it is\<close>
  "paramOf selected =
     (let p = Array_join CHR '','' selected in if p \<noteq> [] then Some p else None)"

definition syncToUrl :: "string \<Rightarrow> string list \<Rightarrow> (string \<rightharpoonup> string) \<Rightarrow> (string \<rightharpoonup> string)" where
  \<comment> \<open>the body of the sync effect after the first render, on the URL's parameters\<close>
  "syncToUrl key selected currentParams =
     (case paramOf selected of
        Some p \<Rightarrow> currentParams(key \<mapsto> p)
      | None \<Rightarrow> currentParams(key := None))"


section \<open>useSourceBadges\<close>

definition source_initial :: "(string \<rightharpoonup> string) \<Rightarrow> string list" where
  "source_initial searchParams = parseParam (searchParams ''sources'')"




definition source_filteredVideos :: "'a video_scheme list \<Rightarrow> string list \<Rightarrow> 'a video_scheme list" where
  "source_filteredVideos videos selectedSources =
     (if Set_size selectedSources = 0 then videos
      else filter (\<lambda>video. truthy (source video) \<and> Set_has selectedSources (the (source video)))
             videos)"

definition toggleSource :: "string \<Rightarrow> string list \<Rightarrow> string list" where
  "toggleSource sourceId prev =
     (let newSet = Set_of prev
      in if Set_has newSet sourceId then Set_delete newSet sourceId
         else Set_add newSet sourceId)"

definition source_autoCleanup :: "'a SourceBadge_scheme list \<Rightarrow> string list \<Rightarrow> string list" where
  "source_autoCleanup availableSources prev =
     (if length availableSources = 0 then prev
      else let availableSourceIds = Set_of (map id_badge availableSources);
               filtered = Set_of (filter (\<lambda>sourceId. Set_has availableSourceIds sourceId) prev)
           in if Set_size filtered \<noteq> Set_size prev then filtered else prev)"

section \<open>useTypeBadges\<close>

definition type_initial :: "(string \<rightharpoonup> string) \<Rightarrow> string list" where
  "type_initial searchParams = parseParam (searchParams ''types'')"




definition countType :: "(string \<times> nat) list \<Rightarrow> 'a video_scheme \<Rightarrow> (string \<times> nat) list" where
  \<comment> \<open>the body of \<open>videos.forEach\<close>; \<open>typeMap.get(type) || 0\<close> is 0 for a missing key\<close>
  "countType typeMap video =
     (if truthy (type_name video) \<and> String_trim (the (type_name video)) \<noteq> []
      then let ty = String_trim (the (type_name video))
           in Map_set typeMap ty ((case Map_get typeMap ty of None \<Rightarrow> 0 | Some n \<Rightarrow> n) + 1)
      else typeMap)"

definition typeBadges :: "'a video_scheme list \<Rightarrow> TypeBadge list" where
  "typeBadges videos =
     Array_sort (\<lambda>a b. int (count b) - int (count a))
       (map (\<lambda>(t, c). \<lparr>type = t, count = c\<rparr>) (foldl countType [] videos))"

definition type_filteredVideos :: "'a video_scheme list \<Rightarrow> string list \<Rightarrow> 'a video_scheme list" where
  "type_filteredVideos videos selectedTypes =
     (if Set_size selectedTypes = 0 then videos
      else filter (\<lambda>video. truthy (type_name video) \<and>
                     Set_has selectedTypes (String_trim (the (type_name video))))
             videos)"

definition toggleType :: "string \<Rightarrow> string list \<Rightarrow> string list" where
  "toggleType ty prev =
     (let newSet = Set_of prev
      in if Set_has newSet ty then Set_delete newSet ty
         else Set_add newSet ty)"

definition type_autoCleanup :: "TypeBadge list \<Rightarrow> string list \<Rightarrow> string list" where
  "type_autoCleanup badges prev =
     (if length badges = 0 then prev
      else let availableTypes = Set_of (map type badges);
               filtered = Set_of (filter (\<lambda>t. Set_has availableTypes t) prev)
           in if Set_size filtered \<noteq> Set_size prev then filtered else prev)"

section \<open>useHomePage\<close>

text \<open>
  \<open>SortOption\<close> is a union of string literals, a string at run time. The settings store
  gives \<open>{ sources: [{id, enabled}], sortBy }\<close>, the cache gives
  \<open>{ query, results, availableSources }\<close> or \<open>null\<close>.
\<close>

type_synonym SortOption = string

record VideoSource =
  id_source :: string   \<comment> \<open>the field \<open>id\<close>\<close>
  enabled :: bool

record settings =
  sources :: "VideoSource list"
  sortBy :: SortOption

record cached =
  cached_query :: string                        \<comment> \<open>\<open>cached.query\<close>\<close>
  cached_results :: "video list"                \<comment> \<open>\<open>cached.results\<close>\<close>
  cached_availableSources :: "SourceBadge list" \<comment> \<open>\<open>cached.availableSources\<close>\<close>

text \<open>
  The parallel-search engine is outside the hook; the hook's calls to it are recorded,
  oldest first, in the field \<open>engine\<close> of the state.
\<close>

datatype engine_call =
    performSearch string "VideoSource list" SortOption
  | loadCachedResults "video list" "SourceBadge list"
  | resetSearch
  | applySorting SortOption

record home =
  query :: string
  hasSearched :: bool
  currentSortBy :: SortOption
  hasLoadedCache :: bool               \<comment> \<open>\<open>hasLoadedCache.current\<close>\<close>
  hasSearchedWithSourcesRef :: bool    \<comment> \<open>\<open>hasSearchedWithSourcesRef.current\<close>\<close>
  engine :: "engine_call list"

definition initial_home :: home where
  \<comment> \<open>the state at mount: an empty query, \<open>hasSearched\<close> false, the sort option
      \<open>default\<close>, both refs false, no call made\<close>
  "initial_home = \<lparr>query = [], hasSearched = False, currentSortBy = ''default'',
     hasLoadedCache = False, hasSearchedWithSourcesRef = False, engine = []\<rparr>"

definition executeSearch :: "settings \<Rightarrow> string \<Rightarrow> home \<Rightarrow> bool \<times> home" where
  \<comment> \<open>the first argument is what \<open>settingsStore.getSettings()\<close> returns\<close>
  "executeSearch st searchQuery s =
     (if String_trim searchQuery = [] then (False, s)
      else let enabledSources = filter enabled (sources st)
           in if length enabledSources = 0 then (False, s)
              else (True,
                    s\<lparr>engine := engine s @ [performSearch searchQuery enabledSources (sortBy st)],
                      hasSearchedWithSourcesRef := True\<rparr>))"

definition handleSearch :: "settings \<Rightarrow> string \<Rightarrow> home \<Rightarrow> home" where
  "handleSearch st searchQuery s =
     (if String_trim searchQuery = [] then s
      else snd (executeSearch st searchQuery (s\<lparr>query := searchQuery, hasSearched := True\<rparr>)))"

definition loadCacheOnMount ::
  "settings \<Rightarrow> string option \<Rightarrow> cached option \<Rightarrow> home \<Rightarrow> home" where
  \<comment> \<open>the effect that loads cached results on mount; \<open>urlQuery\<close> is the \<open>q\<close> of the URL
      and \<open>cache\<close> is what \<open>loadFromCache()\<close> returns\<close>
  "loadCacheOnMount st urlQuery cache s =
     (if hasLoadedCache s then s
      else let s1 = s\<lparr>hasLoadedCache := True\<rparr>
           in if truthy urlQuery
              then let s2 = s1\<lparr>query := the urlQuery\<rparr>
                   in (case cache of
                         None \<Rightarrow> handleSearch st (the urlQuery) s2
                       | Some c \<Rightarrow>
                           if cached_query c = the urlQuery \<and> length (cached_results c) > 0
                           then s2\<lparr>hasSearched := True,
                                   engine := engine s2 @
                                     [loadCachedResults (cached_results c) (cached_availableSources c)],
                                   hasSearchedWithSourcesRef := True\<rparr>
                           else handleSearch st (the urlQuery) s2)
              else s1)"

section \<open>The specification's words\<close>

text \<open>
  The facet value of an item is its \<open>source\<close>, or its trimmed \<open>type_name\<close>; an item
  has a type when the trimmed \<open>type_name\<close> is there and not empty. The specification's
  \<open>filteredItems\<close> keeps, for a selection that is not empty, the items whose facet
  value is a member of the selection.
\<close>

definition trimmedType :: "'a video_scheme \<Rightarrow> string option" where
  "trimmedType video = map_option String_trim (type_name video)"

definition hasType :: "'a video_scheme \<Rightarrow> bool" where
  "hasType video = (case trimmedType video of None \<Rightarrow> False | Some t \<Rightarrow> t \<noteq> [])"

definition filteredItems_spec :: "('i \<Rightarrow> string option) \<Rightarrow> 'i list \<Rightarrow> string set \<Rightarrow> 'i list" where
  "filteredItems_spec facet items S =
     (if S = {} then items
      else filter (\<lambda>item. case facet item of None \<Rightarrow> False | Some f \<Rightarrow> f \<in> S) items)"

section \<open>Sets as lists\<close>

lemma set_Set_add: "set (Set_add s x) = insert x (set s)"
  by (auto simp: Set_add_def Set_has_def)

lemma set_foldl_Set_add: "set (foldl Set_add acc xs) = set acc \<union> set xs"
  by (induction xs arbitrary: acc) (simp_all add: set_Set_add)

lemma set_Set_of: "set (Set_of xs) = set xs"
  by (simp add: Set_of_def set_foldl_Set_add)

lemma set_Set_delete: "set (Set_delete s x) = set s - {x}"
  by (auto simp: Set_delete_def)

lemma distinct_Set_add: "distinct s \<Longrightarrow> distinct (Set_add s x)"
  by (simp add: Set_add_def Set_has_def)

lemma distinct_foldl_Set_add: "distinct acc \<Longrightarrow> distinct (foldl Set_add acc xs)"
  by (induction xs arbitrary: acc) (simp_all add: distinct_Set_add)

lemma distinct_Set_of: "distinct (Set_of xs)"
  by (simp add: Set_of_def distinct_foldl_Set_add)

lemma foldl_Set_add_distinct:
  "distinct (acc @ xs) \<Longrightarrow> foldl Set_add acc xs = acc @ xs"
  by (induction xs arbitrary: acc) (simp_all add: Set_add_def Set_has_def)

lemma Set_of_distinct: "distinct xs \<Longrightarrow> Set_of xs = xs"
  using foldl_Set_add_distinct [of "[]" xs] by (simp add: Set_of_def)

section \<open>Toggling a value\<close>

text \<open>
  C8. For every selection and every value, the toggle of either hook adds the value when
  it is absent and removes it when it is present, which is the symmetric difference with
  the singleton of the value, and two toggles of the same value in succession give back
  the original set. The result is again a set without duplicates.
\<close>

theorem toggle_symmetric_difference:
  "set (toggleSource v S) = (if v \<in> set S then set S - {v} else insert v (set S)) \<and>
   set (toggleSource v S) = (set S - {v}) \<union> ({v} - set S) \<and>
   set (toggleSource v (toggleSource v S)) = set S \<and>
   distinct (toggleSource v S) \<and>
   set (toggleType v S) = (if v \<in> set S then set S - {v} else insert v (set S)) \<and>
   set (toggleType v S) = (set S - {v}) \<union> ({v} - set S) \<and>
   set (toggleType v (toggleType v S)) = set S \<and>
   distinct (toggleType v S)"
proof -
  have d: "distinct (Set_of S)" by (rule distinct_Set_of)
  have one: "set (toggleSource w T) = (if w \<in> set T then set T - {w} else insert w (set T))"
    for w T
    by (simp add: toggleSource_def Let_def Set_has_def set_Set_of set_Set_delete set_Set_add)
  have same: "toggleType w T = toggleSource w T" for w T
    by (simp add: toggleType_def toggleSource_def)
  have twice: "set (toggleSource v (toggleSource v S)) = set S"
    by (auto simp: one)
  have dist: "distinct (toggleSource v S)"
    using d by (simp add: toggleSource_def Let_def Set_delete_def distinct_Set_add)
  have symm: "set (toggleSource v S) = (set S - {v}) \<union> ({v} - set S)"
    by (auto simp: one)
  show ?thesis
    using one [of v S] twice dist symm by (simp only: same simp_thms)
qed

theorem toggle_symmetric_difference_witness:
  "toggleSource ''b'' [''a'', ''b''] = [''a''] \<and>
   toggleSource ''b'' [''a''] = [''a'', ''b''] \<and>
   set (toggleType ''b'' (toggleType ''b'' [''a'', ''b''])) = set [''a'', ''b'']"
  using toggle_symmetric_difference [of "''b''" "[''a'', ''b'']"]
  by (simp add: toggleSource_def Set_of_def Set_add_def Set_has_def Set_delete_def)

section \<open>Pruning a selection\<close>

lemma length_foldl_Set_add: "length (foldl Set_add acc xs) \<le> length acc + length xs"
proof (induction xs arbitrary: acc)
  case Nil
  show ?case by simp
next
  case (Cons x xs)
  have "length (foldl Set_add (Set_add acc x) xs) \<le> length (Set_add acc x) + length xs"
    by (rule Cons.IH)
  also have "\<dots> \<le> length acc + length (x # xs)"
    by (simp add: Set_add_def)
  finally show ?case by simp
qed

lemma length_Set_of: "length (Set_of xs) \<le> length xs"
  using length_foldl_Set_add [of "[]" xs] by (simp add: Set_of_def)

lemma filter_keeps_all: "length (filter P xs) = length xs \<Longrightarrow> filter P xs = xs"
proof (induction xs)
  case Nil
  show ?case by simp
next
  case (Cons x xs)
  have le: "length (filter P xs) \<le> length xs" by simp
  show ?case
  proof (cases "P x")
    case True
    with Cons show ?thesis by simp
  next
    case False
    with Cons.prems le show ?thesis by simp
  qed
qed

text \<open>
  The effect returns the old set when the sizes agree. Then nothing was filtered out, so
  the old set is the filtered one.
\<close>

lemma prune_set:
  "set (if Set_size (Set_of (filter P prev)) \<noteq> Set_size prev
        then Set_of (filter P prev) else prev) = {x \<in> set prev. P x}"
proof (cases "length (Set_of (filter P prev)) = length prev")
  case True
  have "length prev \<le> length (filter P prev)"
    using length_Set_of [of "filter P prev"] True by simp
  then have "length (filter P prev) = length prev"
    using length_filter_le [of P prev] by simp
  then have "filter P prev = prev" by (rule filter_keeps_all)
  then have "{x \<in> set prev. P x} = set prev"
    by (metis set_filter)
  with True show ?thesis by (simp add: Let_def Set_size_def)
next
  case False
  then show ?thesis by (simp add: Let_def Set_size_def set_Set_of)
qed

lemma Set_has_Set_of: "Set_has (Set_of xs) = (\<lambda>x. x \<in> set xs)"
  by (rule ext) (simp add: Set_has_def set_Set_of)

text \<open>
  C2. For every list of available badges that is not empty and every prior selection,
  the auto-cleanup of either hook yields, as a set, the prior selection intersected with
  the available values; for an empty list of available badges it returns the prior
  selection as it is.
\<close>

theorem autoCleanup_intersection:
  "source_autoCleanup [] S = S \<and> type_autoCleanup [] S = S \<and>
   (A \<noteq> [] \<longrightarrow> set (source_autoCleanup A S) = set S \<inter> id_badge ` set A) \<and>
   (B \<noteq> [] \<longrightarrow> set (type_autoCleanup B S) = set S \<inter> type ` set B)"
proof -
  have src: "set (source_autoCleanup A S) = set S \<inter> id_badge ` set A" if "A \<noteq> []"
  proof -
    have "set (source_autoCleanup A S) = {x \<in> set S. x \<in> set (map id_badge A)}"
      using that
      by (simp only: source_autoCleanup_def Let_def Set_has_Set_of prune_set length_0_conv if_False)
    then show ?thesis by auto
  qed
  have tyb: "set (type_autoCleanup B S) = set S \<inter> type ` set B" if "B \<noteq> []"
  proof -
    have "set (type_autoCleanup B S) = {x \<in> set S. x \<in> set (map type B)}"
      using that
      by (simp only: type_autoCleanup_def Let_def Set_has_Set_of prune_set length_0_conv if_False)
    then show ?thesis by auto
  qed
  show ?thesis
    using src tyb by (simp add: source_autoCleanup_def type_autoCleanup_def)
qed

theorem autoCleanup_intersection_witness:
  "source_autoCleanup [] [''X''] = [''X''] \<and> type_autoCleanup [] [''X''] = [''X''] \<and>
   [\<lparr>id_badge = ''Y''\<rparr>] \<noteq> [] \<and>
   set (source_autoCleanup [\<lparr>id_badge = ''Y''\<rparr>] [''X'', ''Y'']) = {''Y''} \<and>
   [\<lparr>type = ''Y'', count = 2\<rparr>] \<noteq> [] \<and>
   set (type_autoCleanup [\<lparr>type = ''Y'', count = 2\<rparr>] [''X'', ''Y'']) = {''Y''}"
  using autoCleanup_intersection
    [of "[''X'', ''Y'']" "[\<lparr>id_badge = ''Y''\<rparr>]" "[\<lparr>type = ''Y'', count = 2\<rparr>]"]
  by (simp add: source_autoCleanup_def type_autoCleanup_def)

section \<open>A selection never holds a value twice\<close>


lemma distinct_toggle: "distinct (toggleSource v S) \<and> distinct (toggleType v S)"
  using distinct_Set_of [of S]
  by (simp add: toggleSource_def toggleType_def Let_def Set_delete_def distinct_Set_add)

lemma distinct_autoCleanup:
  "distinct S \<Longrightarrow> distinct (source_autoCleanup A S) \<and> distinct (type_autoCleanup B S)"
  by (simp add: source_autoCleanup_def type_autoCleanup_def Let_def distinct_Set_of)

section \<open>Reconciling the selection with the URL\<close>


section \<open>Filtering the items\<close>

lemma String_trim_Nil: "String_trim [] = []"
  by (simp add: String_trim_def)

lemma source_filter_char:
  "source_filteredVideos vs S =
     (if S = [] then vs
      else filter (\<lambda>v. case source v of None \<Rightarrow> False | Some s \<Rightarrow> s \<noteq> [] \<and> s \<in> set S) vs)"
proof -
  have "(truthy (source v) \<and> Set_has S (the (source v))) =
        (case source v of None \<Rightarrow> False | Some s \<Rightarrow> s \<noteq> [] \<and> s \<in> set S)"
    for v :: "'a video_scheme"
    by (simp add: truthy_def Set_has_def split: option.splits)
  then show ?thesis
    by (simp add: source_filteredVideos_def Set_size_def)
qed

lemma type_filter_char:
  "type_filteredVideos vs S =
     (if S = [] then vs
      else filter (\<lambda>v. case type_name v of None \<Rightarrow> False
                        | Some t \<Rightarrow> t \<noteq> [] \<and> String_trim t \<in> set S) vs)"
proof -
  have "(truthy (type_name v) \<and> Set_has S (String_trim (the (type_name v)))) =
        (case type_name v of None \<Rightarrow> False | Some t \<Rightarrow> t \<noteq> [] \<and> String_trim t \<in> set S)"
    for v :: "'a video_scheme"
    by (simp add: truthy_def Set_has_def split: option.splits)
  then show ?thesis
    by (simp add: type_filteredVideos_def Set_size_def)
qed

text \<open>
  C1, as amended. For every item list and every selection: for the empty selection both
  hooks return the item list unchanged; for a selection that is not empty they return,
  in the order of the input, exactly the items whose facet field (\<open>source\<close>, or
  \<open>type_name\<close>) is present and not the empty string and whose facet value (the source,
  or the trimmed type name) is a member of the selection. For a selection that does not
  hold the empty string this is the specification's \<open>filteredItems\<close>: exactly the items
  whose facet value is a member of the selection.
\<close>

theorem filteredVideos_membership:
  "source_filteredVideos vs [] = vs \<and> type_filteredVideos vs [] = vs \<and>
   source_filteredVideos vs S =
     (if S = [] then vs
      else filter (\<lambda>v. case source v of None \<Rightarrow> False | Some s \<Rightarrow> s \<noteq> [] \<and> s \<in> set S) vs) \<and>
   type_filteredVideos vs S =
     (if S = [] then vs
      else filter (\<lambda>v. case type_name v of None \<Rightarrow> False
                        | Some t \<Rightarrow> t \<noteq> [] \<and> String_trim t \<in> set S) vs) \<and>
   ([] \<notin> set S \<longrightarrow>
      source_filteredVideos vs S = filteredItems_spec source vs (set S) \<and>
      type_filteredVideos vs S = filteredItems_spec trimmedType vs (set S))"
proof -
  have a: "source_filteredVideos vs S = filteredItems_spec source vs (set S)" if "[] \<notin> set S"
  proof -
    have "(case source v of None \<Rightarrow> False | Some s \<Rightarrow> s \<noteq> [] \<and> s \<in> set S) =
          (case source v of None \<Rightarrow> False | Some s \<Rightarrow> s \<in> set S)" for v :: "'a video_scheme"
      using that by (auto split: option.splits)
    then show ?thesis
      by (simp add: source_filter_char filteredItems_spec_def)
  qed
  have b: "type_filteredVideos vs S = filteredItems_spec trimmedType vs (set S)" if "[] \<notin> set S"
  proof -
    have "(case type_name v of None \<Rightarrow> False | Some t \<Rightarrow> t \<noteq> [] \<and> String_trim t \<in> set S) =
          (case trimmedType v of None \<Rightarrow> False | Some f \<Rightarrow> f \<in> set S)" for v :: "'a video_scheme"
      using that by (auto simp: trimmedType_def String_trim_Nil split: option.splits)
    then show ?thesis
      by (simp add: type_filter_char filteredItems_spec_def)
  qed
  show ?thesis
    using a b source_filter_char [of vs S] type_filter_char [of vs S]
    by (simp add: source_filteredVideos_def type_filteredVideos_def Set_size_def)
qed

theorem filteredVideos_membership_witness:
  "[] \<notin> set [''X''] \<and>
   source_filteredVideos
     [\<lparr>source = Some ''X'', sourceName = None, type_name = Some '' X ''\<rparr>,
      \<lparr>source = Some ''Y'', sourceName = None, type_name = None\<rparr>] [''X'']
     = [\<lparr>source = Some ''X'', sourceName = None, type_name = Some '' X ''\<rparr>] \<and>
   type_filteredVideos
     [\<lparr>source = Some ''X'', sourceName = None, type_name = Some '' X ''\<rparr>,
      \<lparr>source = Some ''Y'', sourceName = None, type_name = None\<rparr>] [''X'']
     = [\<lparr>source = Some ''X'', sourceName = None, type_name = Some '' X ''\<rparr>]"
proof -
  have t: "String_trim '' X '' = ''X''"
    by (simp add: String_trim_def is_white_space_def)
  show ?thesis
    using filteredVideos_membership
      [of "[\<lparr>source = Some ''X'', sourceName = None, type_name = Some '' X ''\<rparr>,
            \<lparr>source = Some ''Y'', sourceName = None, type_name = None\<rparr>]" "[''X'']"]
    by (simp add: filteredItems_spec_def trimmedType_def t)
qed

text \<open>
  The claim as it is written fails for a selection that holds the empty string: an item
  whose \<open>source\<close> (or \<open>type_name\<close>) is the empty string has its facet value in the
  selection, and both hooks leave it out.
\<close>

theorem filteredVideos_counterexample:
  "source_filteredVideos [\<lparr>source = Some [], sourceName = None, type_name = Some []\<rparr>] [[]]
     \<noteq> filteredItems_spec source
          [\<lparr>source = Some [], sourceName = None, type_name = Some []\<rparr>] (set [[]]) \<and>
   type_filteredVideos [\<lparr>source = Some [], sourceName = None, type_name = Some []\<rparr>] [[]]
     \<noteq> filteredItems_spec trimmedType
          [\<lparr>source = Some [], sourceName = None, type_name = Some []\<rparr>] (set [[]])"
  by (simp add: source_filteredVideos_def type_filteredVideos_def filteredItems_spec_def
      trimmedType_def String_trim_def Set_size_def truthy_def)

section \<open>The selection through the URL and back\<close>

lemma String_split_no_sep: "c \<notin> set x \<Longrightarrow> String_split c x = [x]"
  by (induction x) auto

lemma String_split_append:
  "c \<notin> set x \<Longrightarrow> String_split c (x @ c # rest) = x # String_split c rest"
  by (induction x) auto

lemma String_split_join:
  "xs \<noteq> [] \<Longrightarrow> \<forall>x\<in>set xs. c \<notin> set x \<Longrightarrow> String_split c (Array_join c xs) = xs"
proof (induction c xs rule: Array_join.induct)
  case (1 c)
  then show ?case by simp
next
  case (2 c x)
  then show ?case by (simp add: String_split_no_sep)
next
  case (3 c x y ys)
  then show ?case by (simp add: String_split_append)
qed

lemma Array_join_Nil_iff:
  "\<forall>x\<in>set xs. x \<noteq> [] \<Longrightarrow> (Array_join c xs = []) = (xs = [])"
  by (induction c xs rule: Array_join.induct) simp_all

lemma parse_paramOf:
  assumes "\<forall>s\<in>set S. s \<noteq> [] \<and> CHR '','' \<notin> set s"
  shows "parseParam (paramOf S) = Set_of S"
proof (cases "S = []")
  case True
  then show ?thesis by (simp add: paramOf_def parseParam_def truthy_def)
next
  case False
  have ne: "Array_join CHR '','' S \<noteq> []"
    using assms False by (simp add: Array_join_Nil_iff)
  have sp: "String_split CHR '','' (Array_join CHR '','' S) = S"
    using assms False by (simp add: String_split_join)
  have fl: "filter (\<lambda>seg. seg \<noteq> []) S = S"
    using assms by (simp add: filter_id_conv)
  show ?thesis
    using ne by (simp add: paramOf_def parseParam_def truthy_def Let_def sp fl)
qed

lemma syncToUrl_get: "syncToUrl key S params key = paramOf S"
  by (simp add: syncToUrl_def split: option.splits)

text \<open>
  C5, as amended. For every selection whose values are not empty and hold no comma,
  writing it as the comma-joined parameter value and parsing that back (split on commas,
  empty segments dropped) gives a set equal to the selection, in the same iteration
  order; the same holds through the URL's parameters, for the sources and for the types.
\<close>

theorem url_roundtrip:
  assumes "\<forall>s\<in>set S. s \<noteq> [] \<and> CHR '','' \<notin> set s"
  shows "set (parseParam (paramOf S)) = set S \<and>
         (distinct S \<longrightarrow> parseParam (paramOf S) = S) \<and>
         set (source_initial (syncToUrl ''sources'' S params)) = set S \<and>
         set (type_initial (syncToUrl ''types'' S params)) = set S"
  using parse_paramOf [OF assms]
  by (simp add: set_Set_of Set_of_distinct source_initial_def type_initial_def syncToUrl_get)

theorem url_roundtrip_witness:
  "distinct [''b'', ''a''] \<and> paramOf [''b'', ''a''] = Some ''b,a'' \<and>
   parseParam (paramOf [''b'', ''a'']) = [''b'', ''a'']"
proof -
  have h: "\<forall>s\<in>set [''b'', ''a'']. s \<noteq> [] \<and> CHR '','' \<notin> set s" by simp
  have d: "distinct [''b'', ''a'']" by simp
  have p: "paramOf [''b'', ''a''] = Some ''b,a''" by (simp add: paramOf_def)
  show ?thesis
    using url_roundtrip [OF h, of Map.empty] d p by simp
qed

text \<open>
  The claim as it is written fails for a value that holds a comma: the selection with
  the one value \<open>a,b\<close> comes back as the two values \<open>a\<close> and \<open>b\<close>.
\<close>

theorem url_roundtrip_counterexample:
  "distinct [''a,b''] \<and> [] \<notin> set [''a,b''] \<and>
   paramOf [''a,b''] = Some ''a,b'' \<and>
   parseParam (paramOf [''a,b'']) = [''a'', ''b''] \<and>
   set (parseParam (paramOf [''a,b''])) \<noteq> set [''a,b'']"
  by (simp add: paramOf_def parseParam_def truthy_def Set_of_def Set_add_def Set_has_def)

section \<open>Reconciliation and the outbound navigation\<close>









section \<open>Collecting the type badges\<close>

lemma map_of_Map_set: "map_of (Map_set m k v) = (map_of m)(k \<mapsto> v)"
  by (induction m k v rule: Map_set.induct) auto

lemma keys_Map_set:
  "map fst (Map_set m k v) = (if k \<in> fst ` set m then map fst m else map fst m @ [k])"
  by (induction m k v rule: Map_set.induct) auto

lemma distinct_keys_Map_set:
  "distinct (map fst m) \<Longrightarrow> distinct (map fst (Map_set m k v))"
  by (simp add: keys_Map_set)

text \<open>One step of the loop: an item without a type is skipped, any other bumps its key.\<close>

lemma countType_skip: "\<not> hasType v \<Longrightarrow> countType m v = m"
  by (auto simp: countType_def hasType_def trimmedType_def truthy_def split: option.splits)

lemma countType_bump:
  "hasType v \<Longrightarrow> countType m v =
     Map_set m (the (trimmedType v))
       (Suc (case map_of m (the (trimmedType v)) of None \<Rightarrow> 0 | Some n \<Rightarrow> n))"
  by (auto simp: countType_def hasType_def trimmedType_def truthy_def Map_get_def Let_def
      String_trim_Nil split: option.splits)

lemma distinct_keys_countType:
  "distinct (map fst m) \<Longrightarrow> distinct (map fst (countType m v))"
  by (cases "hasType v") (simp_all add: countType_skip countType_bump distinct_keys_Map_set)

lemma distinct_keys_foldl_countType:
  "distinct (map fst m) \<Longrightarrow> distinct (map fst (foldl countType m vs))"
  by (induction vs arbitrary: m) (simp_all add: distinct_keys_countType)

lemma map_of_countType:
  "map_of (countType m v) k =
     (if hasType v \<and> trimmedType v = Some k
      then Some (Suc (case map_of m k of None \<Rightarrow> 0 | Some n \<Rightarrow> n)) else map_of m k)"
proof (cases "hasType v")
  case False
  then show ?thesis by (simp add: countType_skip)
next
  case True
  then obtain t where t: "trimmedType v = Some t"
    by (auto simp: hasType_def split: option.splits)
  with True show ?thesis
    by (simp add: countType_bump map_of_Map_set)
qed

text \<open>The loop, from any map: the count of a key grows by the number of its items.\<close>

lemma map_of_foldl_countType:
  "map_of (foldl countType m vs) k =
     (if filter (\<lambda>v. hasType v \<and> trimmedType v = Some k) vs = [] then map_of m k
      else Some ((case map_of m k of None \<Rightarrow> 0 | Some n \<Rightarrow> n) +
                 length (filter (\<lambda>v. hasType v \<and> trimmedType v = Some k) vs)))"
proof (induction vs arbitrary: m)
  case Nil
  show ?case by simp
next
  case (Cons v vs)
  show ?case
    by (simp add: Cons.IH [of "countType m v"] map_of_countType)
qed

lemma hasType_key: "(hasType v \<and> trimmedType v = Some k) = (k \<noteq> [] \<and> trimmedType v = Some k)"
  by (auto simp: hasType_def)

lemma typeMap_entries:
  "((k, n) \<in> set (foldl countType [] vs)) =
     (k \<noteq> [] \<and> n = length (filter (\<lambda>v. trimmedType v = Some k) vs) \<and> 0 < n)"
proof -
  have d: "distinct (map fst (foldl countType [] vs))"
    by (simp add: distinct_keys_foldl_countType)
  have "((k, n) \<in> set (foldl countType [] vs)) = (map_of (foldl countType [] vs) k = Some n)"
    using d by simp
  also have "\<dots> = (k \<noteq> [] \<and> n = length (filter (\<lambda>v. trimmedType v = Some k) vs) \<and> 0 < n)"
    by (cases "k = []") (auto simp: map_of_foldl_countType hasType_key)
  finally show ?thesis .
qed

lemma foldl_countType_hasType:
  "foldl countType m (filter hasType vs) = foldl countType m vs"
  by (induction vs arbitrary: m) (simp_all add: countType_skip)

text \<open>The sort keeps the elements and puts the larger counts first.\<close>

lemma set_Array_sort_insert: "set (Array_sort_insert cmp x xs) = insert x (set xs)"
  by (induction xs) auto

lemma set_Array_sort: "set (Array_sort cmp xs) = set xs"
  by (induction xs) (simp_all add: Array_sort_def set_Array_sort_insert)

lemma distinct_map_Array_sort_insert:
  "distinct (map f (Array_sort_insert cmp x xs)) = distinct (map f (x # xs))"
  by (induction xs) (auto simp: set_Array_sort_insert)

lemma distinct_map_Array_sort:
  "distinct (map f (Array_sort cmp xs)) = distinct (map f xs)"
proof (induction xs)
  case Nil
  show ?case by (simp add: Array_sort_def)
next
  case (Cons x xs)
  have "Array_sort cmp (x # xs) = Array_sort_insert cmp x (Array_sort cmp xs)"
    by (simp add: Array_sort_def)
  then show ?case
    using Cons by (simp add: distinct_map_Array_sort_insert set_Array_sort)
qed

lemma sorted_Array_sort_insert:
  "sorted_wrt (\<lambda>a b. g b \<le> g a) xs \<Longrightarrow>
   sorted_wrt (\<lambda>a b. g b \<le> g a) (Array_sort_insert (\<lambda>a b. int (g b) - int (g a)) x xs)"
  by (induction xs) (auto simp: set_Array_sort_insert)

lemma sorted_Array_sort:
  "sorted_wrt (\<lambda>a b. g b \<le> g a) (Array_sort (\<lambda>a b. int (g b) - int (g a)) xs)"
  by (induction xs) (simp_all add: Array_sort_def sorted_Array_sort_insert)

lemma stable_Array_sort_insert:
  "filter (\<lambda>b. g b = n) (Array_sort_insert (\<lambda>a b. int (g b) - int (g a)) x xs) =
   filter (\<lambda>b. g b = n) (x # xs)"
  by (induction xs) auto

lemma stable_Array_sort:
  "filter (\<lambda>b. g b = n) (Array_sort (\<lambda>a b. int (g b) - int (g a)) xs) = filter (\<lambda>b. g b = n) xs"
proof (induction xs)
  case Nil
  show ?case by (simp add: Array_sort_def)
next
  case (Cons x xs)
  have "Array_sort (\<lambda>a b. int (g b) - int (g a)) (x # xs) =
        Array_sort_insert (\<lambda>a b. int (g b) - int (g a)) x (Array_sort (\<lambda>a b. int (g b) - int (g a)) xs)"
    by (simp add: Array_sort_def)
  then show ?case
    using Cons by (simp add: stable_Array_sort_insert)
qed

text \<open>The badges: which there are, and what each counts.\<close>

lemma typeBadges_set:
  "set (typeBadges vs) = (\<lambda>(t, c). \<lparr>type = t, count = c\<rparr>) ` set (foldl countType [] vs)"
  by (simp add: typeBadges_def set_Array_sort)

lemma typeBadges_member:
  "(b \<in> set (typeBadges vs)) =
     (type b \<noteq> [] \<and> count b = length (filter (\<lambda>v. trimmedType v = Some (type b)) vs) \<and>
      0 < count b)"
proof -
  have "(b \<in> set (typeBadges vs)) = ((type b, count b) \<in> set (foldl countType [] vs))"
    by (cases b) (auto simp: typeBadges_set)
  then show ?thesis by (simp add: typeMap_entries)
qed

lemma typeBadges_distinct: "distinct (map type (typeBadges vs))"
proof -
  have "type \<circ> (\<lambda>(t, c). \<lparr>type = t, count = c\<rparr>) = fst"
    by (rule ext) (simp add: case_prod_beta)
  then show ?thesis
    by (simp add: typeBadges_def distinct_map_Array_sort distinct_keys_foldl_countType)
qed

lemma typeBadges_sorted: "sorted_wrt (\<lambda>a b. count b \<le> count a) (typeBadges vs)"
  unfolding typeBadges_def by (rule sorted_Array_sort)

lemma typeBadges_types:
  "set (map type (typeBadges vs)) = {t. t \<noteq> [] \<and> Some t \<in> trimmedType ` set vs}"
proof (rule set_eqI)
  fix t
  have "(t \<in> set (map type (typeBadges vs))) = (\<exists>b. b \<in> set (typeBadges vs) \<and> type b = t)"
    by auto
  also have "\<dots> = (t \<noteq> [] \<and> 0 < length (filter (\<lambda>v. trimmedType v = Some t) vs))"
  proof
    assume "\<exists>b. b \<in> set (typeBadges vs) \<and> type b = t"
    then show "t \<noteq> [] \<and> 0 < length (filter (\<lambda>v. trimmedType v = Some t) vs)"
      by (auto simp: typeBadges_member)
  next
    assume a: "t \<noteq> [] \<and> 0 < length (filter (\<lambda>v. trimmedType v = Some t) vs)"
    let ?b = "\<lparr>type = t, count = length (filter (\<lambda>v. trimmedType v = Some t) vs)\<rparr>"
    have "?b \<in> set (typeBadges vs)"
      using a by (simp add: typeBadges_member)
    then show "\<exists>b. b \<in> set (typeBadges vs) \<and> type b = t"
      by (intro exI [of _ ?b]) simp
  qed
  also have "\<dots> = (t \<in> {t. t \<noteq> [] \<and> Some t \<in> trimmedType ` set vs})"
    by (force simp: filter_empty_conv image_iff)
  finally show "(t \<in> set (map type (typeBadges vs))) =
                (t \<in> {t. t \<noteq> [] \<and> Some t \<in> trimmedType ` set vs})" .
qed

lemma typeBadges_scenario:
  "typeBadges [\<lparr>source = None, sourceName = None, type_name = Some ''movie''\<rparr>,
               \<lparr>source = None, sourceName = None, type_name = Some ''movie''\<rparr>,
               \<lparr>source = None, sourceName = None, type_name = Some ''show''\<rparr>]
     = [\<lparr>type = ''movie'', count = 2\<rparr>, \<lparr>type = ''show'', count = 1\<rparr>]"
  by (simp add: typeBadges_def countType_def truthy_def String_trim_def is_white_space_def
      Map_get_def Array_sort_def)

text \<open>
  C7. For every item list, the type badges hold one entry for each distinct trimmed
  \<open>type_name\<close> that is not empty, and no other entry; the count of an entry is the
  number of items whose trimmed \<open>type_name\<close> is the entry's type; the items whose
  \<open>type_name\<close> is absent or trims to the empty string contribute nothing, the badges
  being the same without them; the entries are in descending order of count; and the
  type values movie, movie, show give movie with count 2, then show with count 1.
\<close>

theorem typeBadges_counts:
  "distinct (map type (typeBadges vs)) \<and>
   set (map type (typeBadges vs)) = {t. t \<noteq> [] \<and> Some t \<in> trimmedType ` set vs} \<and>
   (\<forall>b\<in>set (typeBadges vs).
      count b = length (filter (\<lambda>v. trimmedType v = Some (type b)) vs)) \<and>
   typeBadges (filter hasType vs) = typeBadges vs \<and>
   sorted_wrt (\<lambda>a b. count b \<le> count a) (typeBadges vs) \<and>
   typeBadges [\<lparr>source = None, sourceName = None, type_name = Some ''movie''\<rparr>,
               \<lparr>source = None, sourceName = None, type_name = Some ''movie''\<rparr>,
               \<lparr>source = None, sourceName = None, type_name = Some ''show''\<rparr>]
     = [\<lparr>type = ''movie'', count = 2\<rparr>, \<lparr>type = ''show'', count = 1\<rparr>]"
proof -
  have same: "typeBadges (filter hasType vs) = typeBadges vs"
    by (simp add: typeBadges_def foldl_countType_hasType)
  show ?thesis
    using typeBadges_distinct [of vs] typeBadges_types [of vs] typeBadges_sorted [of vs]
      typeBadges_scenario same
    by (simp add: typeBadges_member)
qed

theorem typeBadges_counts_witness:
  "typeBadges [\<lparr>source = None, sourceName = None, type_name = Some '' b ''\<rparr>,
               \<lparr>source = None, sourceName = None, type_name = Some ''a''\<rparr>,
               \<lparr>source = None, sourceName = None, type_name = Some ''   ''\<rparr>,
               \<lparr>source = None, sourceName = None, type_name = None\<rparr>,
               \<lparr>source = None, sourceName = None, type_name = Some ''b''\<rparr>]
     = [\<lparr>type = ''b'', count = 2\<rparr>, \<lparr>type = ''a'', count = 1\<rparr>] \<and>
   length (filter (\<lambda>v. trimmedType v = Some ''b'')
             [\<lparr>source = None, sourceName = None, type_name = Some '' b ''\<rparr>,
              \<lparr>source = None, sourceName = None, type_name = Some ''a''\<rparr>,
              \<lparr>source = None, sourceName = None, type_name = Some ''   ''\<rparr>,
              \<lparr>source = None, sourceName = None, type_name = None\<rparr>,
              \<lparr>source = None, sourceName = None, type_name = Some ''b''\<rparr>]) = 2"
proof -
  let ?vs = "[\<lparr>source = None, sourceName = None, type_name = Some '' b ''\<rparr>,
              \<lparr>source = None, sourceName = None, type_name = Some ''a''\<rparr>,
              \<lparr>source = None, sourceName = None, type_name = Some ''   ''\<rparr>,
              \<lparr>source = None, sourceName = None, type_name = None\<rparr>,
              \<lparr>source = None, sourceName = None, type_name = Some ''b''\<rparr>]"
  have t: "String_trim '' b '' = ''b'' \<and> String_trim ''a'' = ''a'' \<and> String_trim ''   '' = [] \<and>
           String_trim ''b'' = ''b''"
    by (simp add: String_trim_def is_white_space_def)
  have b: "typeBadges ?vs = [\<lparr>type = ''b'', count = 2\<rparr>, \<lparr>type = ''a'', count = 1\<rparr>]"
    by (simp add: typeBadges_def countType_def truthy_def t Map_get_def Array_sort_def)
  have c: "\<forall>x\<in>set (typeBadges ?vs).
             count x = length (filter (\<lambda>v. trimmedType v = Some (type x)) ?vs)"
    by (rule conjunct1 [OF conjunct2 [OF conjunct2 [OF typeBadges_counts]]])
  have m: "\<lparr>type = ''b'', count = 2\<rparr> \<in> set (typeBadges ?vs)"
    by (simp only: b) simp
  from c m have "count \<lparr>type = ''b'', count = 2\<rparr> =
      length (filter (\<lambda>v. trimmedType v = Some (type \<lparr>type = ''b'', count = 2\<rparr>)) ?vs)"
    by (rule bspec)
  then have "length (filter (\<lambda>v. trimmedType v = Some ''b'') ?vs) = 2"
    by (simp only: TypeBadge.select_convs)
  with b show ?thesis by (rule conjI)
qed

section \<open>The badge's type as a selection value\<close>

text \<open>
  C10. For every item list and every badge the type hook produces from it: the badge's
  type, taken as the selection, filters exactly the items whose trimmed \<open>type_name\<close>
  is that type, whatever white space surrounds the raw \<open>type_name\<close>; these are the
  items the badge counts; and in any selection that holds the badge's type, every such
  item passes the filter.
\<close>

theorem type_badge_selects_trimmed:
  assumes "b \<in> set (typeBadges vs)"
  shows "type_filteredVideos vs [type b] = filter (\<lambda>v. trimmedType v = Some (type b)) vs \<and>
         length (type_filteredVideos vs [type b]) = count b \<and>
         (type b \<in> set S \<longrightarrow>
            (\<forall>v\<in>set vs. trimmedType v = Some (type b) \<longrightarrow> v \<in> set (type_filteredVideos vs S)))"
proof -
  have ne: "type b \<noteq> []"
    and cnt: "count b = length (filter (\<lambda>v. trimmedType v = Some (type b)) vs)"
    using assms by (simp_all add: typeBadges_member)
  have key: "(case type_name v of None \<Rightarrow> False
              | Some t \<Rightarrow> t \<noteq> [] \<and> String_trim t \<in> set [type b]) =
             (trimmedType v = Some (type b))" for v :: "'a video_scheme"
    using ne by (auto simp: trimmedType_def String_trim_Nil split: option.splits)
  have one: "type_filteredVideos vs [type b] = filter (\<lambda>v. trimmedType v = Some (type b)) vs"
    by (simp add: type_filter_char key)
  have many: "v \<in> set (type_filteredVideos vs S)"
    if "type b \<in> set S" "v \<in> set vs" "trimmedType v = Some (type b)" for v
  proof -
    have "S \<noteq> []" using that(1) by auto
    moreover have "case type_name v of None \<Rightarrow> False
                   | Some t \<Rightarrow> t \<noteq> [] \<and> String_trim t \<in> set S"
      using that(1,3) ne by (auto simp: trimmedType_def String_trim_Nil split: option.splits)
    ultimately show ?thesis using that(2) by (simp add: type_filter_char)
  qed
  show ?thesis using one cnt many by simp
qed

theorem type_badge_selects_trimmed_witness:
  "typeBadges [\<lparr>source = None, sourceName = None, type_name = Some '' movie''\<rparr>,
               \<lparr>source = None, sourceName = None, type_name = Some ''show''\<rparr>,
               \<lparr>source = None, sourceName = None, type_name = Some ''movie ''\<rparr>]
     = [\<lparr>type = ''movie'', count = 2\<rparr>, \<lparr>type = ''show'', count = 1\<rparr>] \<and>
   type_filteredVideos
     [\<lparr>source = None, sourceName = None, type_name = Some '' movie''\<rparr>,
      \<lparr>source = None, sourceName = None, type_name = Some ''show''\<rparr>,
      \<lparr>source = None, sourceName = None, type_name = Some ''movie ''\<rparr>] [''movie'']
     = [\<lparr>source = None, sourceName = None, type_name = Some '' movie''\<rparr>,
        \<lparr>source = None, sourceName = None, type_name = Some ''movie ''\<rparr>]"
proof -
  let ?vs = "[\<lparr>source = None, sourceName = None, type_name = Some '' movie''\<rparr>,
              \<lparr>source = None, sourceName = None, type_name = Some ''show''\<rparr>,
              \<lparr>source = None, sourceName = None, type_name = Some ''movie ''\<rparr>]"
  let ?b = "\<lparr>type = ''movie'', count = 2\<rparr>"
  have t: "String_trim '' movie'' = ''movie'' \<and> String_trim ''show'' = ''show'' \<and>
           String_trim ''movie '' = ''movie''"
    by (simp add: String_trim_def is_white_space_def)
  have b: "typeBadges ?vs = [?b, \<lparr>type = ''show'', count = 1\<rparr>]"
    by (simp add: typeBadges_def countType_def truthy_def t Map_get_def Array_sort_def)
  have m: "?b \<in> set (typeBadges ?vs)"
    by (simp only: b) simp
  have "type_filteredVideos ?vs [type ?b] = filter (\<lambda>v. trimmedType v = Some (type ?b)) ?vs"
    by (rule conjunct1 [OF type_badge_selects_trimmed [OF m, of "[]"]])
  then have "type_filteredVideos ?vs [''movie''] =
             [\<lparr>source = None, sourceName = None, type_name = Some '' movie''\<rparr>,
              \<lparr>source = None, sourceName = None, type_name = Some ''movie ''\<rparr>]"
    by (simp add: trimmedType_def t)
  with b show ?thesis by (rule conjI)
qed

section \<open>Searching\<close>

lemma String_trim_blank: "(String_trim s = []) = list_all is_white_space s"
proof
  assume "list_all is_white_space s"
  then show "String_trim s = []"
    by (auto simp: String_trim_def list_all_iff dest: set_dropWhileD)
next
  assume "String_trim s = []"
  then have all: "\<forall>c\<in>set (dropWhile is_white_space s). is_white_space c"
    by (simp add: String_trim_def dropWhile_eq_Nil_conv)
  have "dropWhile is_white_space s = []"
  proof (rule ccontr)
    assume ne: "dropWhile is_white_space s \<noteq> []"
    then have "\<not> is_white_space (hd (dropWhile is_white_space s))"
      by (rule hd_dropWhile)
    moreover have "hd (dropWhile is_white_space s) \<in> set (dropWhile is_white_space s)"
      using ne by simp
    ultimately show False using all by blast
  qed
  then show "list_all is_white_space s"
    by (simp add: list_all_iff dropWhile_eq_Nil_conv)
qed

text \<open>
  C9. For every query that is empty or holds white space only, \<open>handleSearch\<close> returns
  the state it was given: the query, \<open>hasSearched\<close>, the latch and the record of engine
  calls are all as before.
\<close>

theorem handleSearch_blank:
  assumes "list_all is_white_space q"
  shows "handleSearch st q s = s"
  using assms by (simp add: handleSearch_def String_trim_blank)

theorem handleSearch_blank_witness:
  "list_all is_white_space [CHR 0x20, CHR 0x09] \<and>
   handleSearch \<lparr>sources = [\<lparr>id_source = ''X'', enabled = True\<rparr>], sortBy = ''default''\<rparr>
     [CHR 0x20, CHR 0x09] initial_home = initial_home"
proof -
  have w: "list_all is_white_space [CHR 0x20, CHR 0x09]"
    by (simp add: is_white_space_def)
  show ?thesis
    using w handleSearch_blank [OF w] by simp
qed

text \<open>
  C4. For every query that is not blank: with no enabled source, \<open>executeSearch\<close>
  returns false and the state it was given, so the engine is not called and the latch is
  not set; with at least one enabled source it calls \<open>performSearch\<close> with the query, the
  enabled sources and the sort preference of the settings, sets the latch, and returns
  true.
\<close>

theorem executeSearch_sources:
  assumes "\<not> list_all is_white_space q"
  shows "(filter enabled (sources st) = [] \<longrightarrow> executeSearch st q s = (False, s)) \<and>
         (filter enabled (sources st) \<noteq> [] \<longrightarrow>
            executeSearch st q s =
              (True, s\<lparr>engine := engine s @
                          [performSearch q (filter enabled (sources st)) (sortBy st)],
                       hasSearchedWithSourcesRef := True\<rparr>))"
  using assms by (simp add: executeSearch_def String_trim_blank Let_def)

theorem executeSearch_sources_witness:
  "\<not> list_all is_white_space ''cats'' \<and>
   executeSearch \<lparr>sources = [\<lparr>id_source = ''X'', enabled = False\<rparr>], sortBy = ''default''\<rparr>
     ''cats'' initial_home = (False, initial_home) \<and>
   executeSearch \<lparr>sources = [\<lparr>id_source = ''X'', enabled = False\<rparr>,
                              \<lparr>id_source = ''Y'', enabled = True\<rparr>], sortBy = ''default''\<rparr>
     ''cats'' initial_home =
     (True, initial_home
        \<lparr>engine := [performSearch ''cats'' [\<lparr>id_source = ''Y'', enabled = True\<rparr>] ''default''],
         hasSearchedWithSourcesRef := True\<rparr>)"
proof -
  have w: "\<not> list_all is_white_space ''cats''"
    by (simp add: is_white_space_def)
  have e: "engine initial_home = []"
    by (simp add: initial_home_def)
  show ?thesis
    using w
      executeSearch_sources [OF w,
        of "\<lparr>sources = [\<lparr>id_source = ''X'', enabled = False\<rparr>], sortBy = ''default''\<rparr>" initial_home]
      executeSearch_sources [OF w,
        of "\<lparr>sources = [\<lparr>id_source = ''X'', enabled = False\<rparr>,
                         \<lparr>id_source = ''Y'', enabled = True\<rparr>], sortBy = ''default''\<rparr>" initial_home]
    by (simp add: e)
qed

section \<open>Restoring on mount\<close>

text \<open>
  C3, as amended. The effect runs its body at most once: after any run the one-shot flag
  is set, and a later run, with whatever inputs, changes nothing. On the first run, when
  the URL query is present and not empty and the cache holds a bundle whose query equals
  it and whose result list is not empty, the effect sets the query, sets \<open>hasSearched\<close>
  and the latch, and hands the cached results to the engine with \<open>loadCachedResults\<close>,
  making no \<open>performSearch\<close> call; when the URL query is present and not empty and the
  cache holds no such bundle, it sets the query and does what \<open>handleSearch\<close> does with
  the URL query; when the URL query is absent or empty it only sets the flag.
\<close>

theorem mount_restoration:
  "hasLoadedCache (loadCacheOnMount st u c s) \<and>
   loadCacheOnMount st' u' c' (loadCacheOnMount st u c s) = loadCacheOnMount st u c s \<and>
   (\<not> hasLoadedCache s \<and> q \<noteq> [] \<and> cached_query b = q \<and> cached_results b \<noteq> [] \<longrightarrow>
      loadCacheOnMount st (Some q) (Some b) s =
        s\<lparr>hasLoadedCache := True, query := q, hasSearched := True,
          engine := engine s @ [loadCachedResults (cached_results b) (cached_availableSources b)],
          hasSearchedWithSourcesRef := True\<rparr>) \<and>
   (\<not> hasLoadedCache s \<and> q \<noteq> [] \<and>
    (case c of None \<Rightarrow> True | Some b \<Rightarrow> cached_query b \<noteq> q \<or> cached_results b = []) \<longrightarrow>
      loadCacheOnMount st (Some q) c s =
        handleSearch st q (s\<lparr>hasLoadedCache := True, query := q\<rparr>)) \<and>
   (\<not> hasLoadedCache s \<and> \<not> truthy u \<longrightarrow>
      loadCacheOnMount st u c s = s\<lparr>hasLoadedCache := True\<rparr>)"
proof -
  have flag: "hasLoadedCache (loadCacheOnMount st u c s)"
    by (simp add: loadCacheOnMount_def Let_def handleSearch_def executeSearch_def
        split: option.splits)
  then have once:
    "loadCacheOnMount st' u' c' (loadCacheOnMount st u c s) = loadCacheOnMount st u c s"
    by (simp add: loadCacheOnMount_def [of st' u' c'])
  show ?thesis
    using flag once
    by (auto simp: loadCacheOnMount_def Let_def truthy_def split: option.splits)
qed

theorem mount_restoration_witness:
  "\<not> hasLoadedCache initial_home \<and>
   loadCacheOnMount \<lparr>sources = [], sortBy = ''default''\<rparr> (Some ''dogs'')
     (Some \<lparr>cached_query = ''dogs'',
            cached_results = [\<lparr>source = Some ''X'', sourceName = None, type_name = None\<rparr>,
                              \<lparr>source = Some ''X'', sourceName = None, type_name = None\<rparr>,
                              \<lparr>source = Some ''Y'', sourceName = None, type_name = None\<rparr>],
            cached_availableSources = [\<lparr>id_badge = ''X''\<rparr>, \<lparr>id_badge = ''Y''\<rparr>]\<rparr>)
     initial_home =
   \<lparr>query = ''dogs'', hasSearched = True, currentSortBy = ''default'',
     hasLoadedCache = True, hasSearchedWithSourcesRef = True,
     engine = [loadCachedResults
                 [\<lparr>source = Some ''X'', sourceName = None, type_name = None\<rparr>,
                  \<lparr>source = Some ''X'', sourceName = None, type_name = None\<rparr>,
                  \<lparr>source = Some ''Y'', sourceName = None, type_name = None\<rparr>]
                 [\<lparr>id_badge = ''X''\<rparr>, \<lparr>id_badge = ''Y''\<rparr>]]\<rparr>"
proof -
  let ?b = "\<lparr>cached_query = ''dogs'',
            cached_results = [\<lparr>source = Some ''X'', sourceName = None, type_name = None\<rparr>,
                              \<lparr>source = Some ''X'', sourceName = None, type_name = None\<rparr>,
                              \<lparr>source = Some ''Y'', sourceName = None, type_name = None\<rparr>],
            cached_availableSources = [\<lparr>id_badge = ''X''\<rparr>, \<lparr>id_badge = ''Y''\<rparr>]\<rparr>"
  note th = mount_restoration [of "\<lparr>sources = [], sortBy = ''default''\<rparr>" None None initial_home
      "\<lparr>sources = [], sortBy = ''default''\<rparr>" None None "''dogs''" ?b]
  have h: "\<not> hasLoadedCache initial_home \<and> ''dogs'' \<noteq> [] \<and> cached_query ?b = ''dogs'' \<and>
           cached_results ?b \<noteq> []"
    by (simp add: initial_home_def)
  have "loadCacheOnMount \<lparr>sources = [], sortBy = ''default''\<rparr> (Some ''dogs'') (Some ?b) initial_home =
        initial_home\<lparr>hasLoadedCache := True, query := ''dogs'', hasSearched := True,
          engine := engine initial_home @
            [loadCachedResults (cached_results ?b) (cached_availableSources ?b)],
          hasSearchedWithSourcesRef := True\<rparr>"
    by (rule mp [OF conjunct1 [OF conjunct2 [OF conjunct2 [OF th]]] h])
  then show ?thesis
    by (simp add: initial_home_def)
qed

text \<open>
  The claim as it is written fails for the empty URL query (\<open>?q=\<close>): a cached bundle
  whose query is the empty string equals it and has results, and the effect restores
  nothing.
\<close>

theorem mount_restoration_counterexample:
  "cached_query \<lparr>cached_query = [],
                 cached_results = [\<lparr>source = Some ''X'', sourceName = None, type_name = None\<rparr>],
                 cached_availableSources = [\<lparr>id_badge = ''X''\<rparr>]\<rparr> = [] \<and>
   cached_results \<lparr>cached_query = [],
                 cached_results = [\<lparr>source = Some ''X'', sourceName = None, type_name = None\<rparr>],
                 cached_availableSources = [\<lparr>id_badge = ''X''\<rparr>]\<rparr> \<noteq> [] \<and>
   loadCacheOnMount \<lparr>sources = [\<lparr>id_source = ''X'', enabled = True\<rparr>], sortBy = ''default''\<rparr>
     (Some [])
     (Some \<lparr>cached_query = [],
            cached_results = [\<lparr>source = Some ''X'', sourceName = None, type_name = None\<rparr>],
            cached_availableSources = [\<lparr>id_badge = ''X''\<rparr>]\<rparr>)
     initial_home = initial_home\<lparr>hasLoadedCache := True\<rparr> \<and>
   \<not> hasSearched (initial_home\<lparr>hasLoadedCache := True\<rparr>) \<and>
   \<not> hasSearchedWithSourcesRef (initial_home\<lparr>hasLoadedCache := True\<rparr>) \<and>
   engine (initial_home\<lparr>hasLoadedCache := True\<rparr>) = []"
  by (simp add: loadCacheOnMount_def truthy_def initial_home_def)

end
